theory Spec2Isabelle
  imports Complex_Main "HOL-Library.List_Lexorder"
begin

section \<open>Python strings\<close>

text \<open>
  A Python \<^verbatim>\<open>str\<close> is a sequence of Unicode code points, and the program relies on
  code points beyond ASCII (the dash and bullet separators of the title clean-up), so a
  string is a list of code points. Comparison of two strings (\<^verbatim>\<open>sorted\<close>) is the
  lexicographic order on code points, which is the order of \<open>List_Lexorder\<close>.
\<close>

type_synonym pystr = "nat list"

definition lit :: "string \<Rightarrow> pystr" where
  "lit s = map of_char s"

text \<open>\<^verbatim>\<open>s.startswith(p)\<close> and \<^verbatim>\<open>sub in s\<close>.\<close>

fun startswith :: "pystr \<Rightarrow> pystr \<Rightarrow> bool" where
  "startswith s [] = True"
| "startswith [] (p # ps) = False"
| "startswith (c # cs) (p # ps) = (c = p \<and> startswith cs ps)"

fun contains :: "pystr \<Rightarrow> pystr \<Rightarrow> bool" where
  "contains sub [] = (sub = [])"
| "contains sub (c # cs) = (startswith (c # cs) sub \<or> contains sub cs)"

text \<open>
  The characters that \<^verbatim>\<open>\s\<close> matches in a \<^verbatim>\<open>str\<close> pattern and that
  \<^verbatim>\<open>str.strip()\<close> removes: CPython's \<^verbatim>\<open>Py_UNICODE_ISSPACE\<close>.
\<close>

definition isspace :: "nat \<Rightarrow> bool" where
  "isspace c \<longleftrightarrow>
     (9 \<le> c \<and> c \<le> 13) \<or> (28 \<le> c \<and> c \<le> 32) \<or> c = 133 \<or> c = 160 \<or> c = 5760 \<or>
     (8192 \<le> c \<and> c \<le> 8202) \<or> c = 8232 \<or> c = 8233 \<or> c = 8239 \<or> c = 8287 \<or> c = 12288"

section \<open>Link extractor\<close>

text \<open>
  \<^verbatim>\<open>re.compile(r'\((https?://[^\s)]+)\)')\<close>. The class \<^verbatim>\<open>[^\s)]\<close> is
  \<open>url_char\<close>. A match anchored at the head of the text reads \<^verbatim>\<open>(\<close>, then
  \<^verbatim>\<open>http\<close>, an optional \<^verbatim>\<open>s\<close>, \<^verbatim>\<open>://\<close>, the longest run of class
  characters, and \<^verbatim>\<open>)\<close>. Backtracking cannot find another match: a shorter run is
  followed by a class character, which is not \<^verbatim>\<open>)\<close>, and dropping the optional
  \<^verbatim>\<open>s\<close> leaves an \<^verbatim>\<open>s\<close> where \<^verbatim>\<open>:\<close> is required. \<open>match_url\<close> returns
  group 1 and the text after the match.
\<close>

definition url_char :: "nat \<Rightarrow> bool" where
  "url_char c \<longleftrightarrow> \<not> isspace c \<and> c \<noteq> 41"

definition match_url_body :: "pystr \<Rightarrow> pystr \<Rightarrow> (pystr \<times> pystr) option" where
  "match_url_body scheme t =
     (let body = takeWhile url_char t; rest = dropWhile url_char t
      in if body \<noteq> [] \<and> startswith rest [41] then Some (scheme @ body, drop 1 rest)
         else None)"

definition match_url :: "pystr \<Rightarrow> (pystr \<times> pystr) option" where
  "match_url s =
     (if startswith s (lit ''(https://'') then match_url_body (lit ''https://'') (drop 9 s)
      else if startswith s (lit ''(http://'') then match_url_body (lit ''http://'') (drop 8 s)
      else None)"

lemma match_url_body_shorter:
  "match_url_body scheme t = Some (u, rest) \<Longrightarrow> length rest \<le> length t"
proof -
  have "length (dropWhile url_char t) \<le> length t"
    by (rule length_dropWhile_le)
  then show "match_url_body scheme t = Some (u, rest) \<Longrightarrow> length rest \<le> length t"
    by (auto simp: match_url_body_def Let_def split: if_splits)
qed

lemma match_url_shorter:
  "match_url (c # cs) = Some p \<Longrightarrow> length (snd p) < Suc (length cs)"
proof -
  assume m: "match_url (c # cs) = Some p"
  obtain u rest where p: "p = (u, rest)" by (cases p)
  from m p have "length rest \<le> length cs"
    by (auto simp: match_url_def split: if_splits dest!: match_url_body_shorter)
  with p show ?thesis by simp
qed

text \<open>\<^verbatim>\<open>url_pattern.findall(text)\<close>: the matches from left to right, not overlapping.\<close>

function findall_url :: "pystr \<Rightarrow> pystr list" where
  "findall_url [] = []"
| "findall_url (c # cs) =
     (case match_url (c # cs) of
        None \<Rightarrow> findall_url cs
      | Some p \<Rightarrow> fst p # findall_url (snd p))"
  by pat_completeness auto
termination
  by (relation "measure length") (auto dest: match_url_shorter)

definition repo_marker :: pystr where
  "repo_marker = lit ''github.com/yousefebrahimi0/1000-AI-collection-tools''"

text \<open>
  \<^verbatim>\<open>set(...)\<close> makes the matches distinct; the order in which the loop visits the set
  is not fixed by Python, and \<^verbatim>\<open>sorted\<close> makes the result independent of it (lemma
  \<open>extract_tool_links_any_order\<close>). The model visits the matches in order of first
  occurrence.
\<close>

definition extract_tool_links :: "pystr \<Rightarrow> pystr list" where
  "extract_tool_links markdown_text =
     (let urls = remdups (findall_url markdown_text);
          filtered = filter (\<lambda>url. \<not> contains repo_marker url) urls
      in sort filtered)"


definition is_http_url :: "pystr \<Rightarrow> bool" where
  "is_http_url u \<longleftrightarrow>
     (startswith u (lit ''http://'') \<and> 7 < length u \<or>
      startswith u (lit ''https://'') \<and> 8 < length u) \<and> list_all url_char u"

subsection \<open>Facts about the string operations\<close>

lemma startswith_iff: "startswith s p \<longleftrightarrow> (\<exists>r. s = p @ r)"
  by (induction s p rule: startswith.induct) auto

lemma startswith_append: "startswith (p @ r) p"
  by (simp add: startswith_iff)

lemma contains_iff: "contains sub s \<longleftrightarrow> (\<exists>pre post. s = pre @ sub @ post)"
proof (induction s)
  case Nil
  then show ?case by auto
next
  case (Cons c cs)
  show ?case
  proof
    assume "contains sub (c # cs)"
    then consider "startswith (c # cs) sub" | "contains sub cs" by auto
    then show "\<exists>pre post. c # cs = pre @ sub @ post"
    proof cases
      case 1
      then obtain r where "c # cs = sub @ r" by (auto simp: startswith_iff)
      then have "c # cs = [] @ sub @ r" by simp
      then show ?thesis by blast
    next
      case 2
      with Cons obtain pre post where "cs = pre @ sub @ post" by auto
      then have "c # cs = (c # pre) @ sub @ post" by simp
      then show ?thesis by blast
    qed
  next
    assume "\<exists>pre post. c # cs = pre @ sub @ post"
    then obtain pre post where e: "c # cs = pre @ sub @ post" by auto
    show "contains sub (c # cs)"
    proof (cases pre)
      case Nil
      with e have "startswith (c # cs) sub" by (simp add: startswith_iff)
      then show ?thesis by simp
    next
      case (Cons a pre')
      with e have "cs = pre' @ sub @ post" by simp
      with Cons.IH have "contains sub cs" by blast
      then show ?thesis by simp
    qed
  qed
qed

lemma contains_nonempty: "contains sub s \<Longrightarrow> sub \<noteq> [] \<Longrightarrow> s \<noteq> []"
  by (cases s) auto

subsection \<open>Facts about the link pattern\<close>

lemma lit_http_chars: "list_all url_char (lit ''http://'')" "list_all url_char (lit ''https://'')"
  by (simp_all add: lit_def url_char_def isspace_def)

lemma match_url_body_Some:
  assumes "match_url_body scheme t = Some (u, rest)"
  shows "\<exists>body. u = scheme @ body \<and> body \<noteq> [] \<and> list_all url_char body \<and> t = body @ 41 # rest"
proof -
  let ?body = "takeWhile url_char t" and ?rest = "dropWhile url_char t"
  from assms have b: "?body \<noteq> []" and s: "startswith ?rest [41]"
    and u: "u = scheme @ ?body" and r: "rest = drop 1 ?rest"
    by (auto simp: match_url_body_def Let_def split: if_splits)
  from s have "?rest = 41 # rest"
    using r by (cases ?rest) auto
  then have "t = ?body @ 41 # rest"
    by (metis takeWhile_dropWhile_id)
  moreover have "list_all url_char ?body"
    by (simp add: list_all_iff) (meson set_takeWhileD)
  ultimately show ?thesis using b u by blast
qed

lemma match_url_Some:
  assumes "match_url s = Some (u, rest)"
  shows "is_http_url u \<and> s = 40 # u @ 41 # rest"
proof -
  consider (https) "startswith s (lit ''(https://'')"
      "match_url_body (lit ''https://'') (drop 9 s) = Some (u, rest)"
    | (http) "startswith s (lit ''(http://'')"
      "match_url_body (lit ''http://'') (drop 8 s) = Some (u, rest)"
    using assms by (auto simp: match_url_def split: if_splits)
  then show ?thesis
  proof cases
    case https
    from https(1) obtain r where s: "s = lit ''(https://'' @ r"
      by (auto simp: startswith_iff)
    then have d: "drop 9 s = r" by (simp add: lit_def)
    from match_url_body_Some[OF https(2)] d obtain body where
      b: "u = lit ''https://'' @ body" "body \<noteq> []" "list_all url_char body" "r = body @ 41 # rest"
      by auto
    have "is_http_url u"
      using b(1-3) lit_http_chars(2)
      by (cases body) (simp_all add: is_http_url_def startswith_append, simp add: lit_def)
    moreover have "s = 40 # u @ 41 # rest"
      using s b(1,4) by (simp add: lit_def)
    ultimately show ?thesis by simp
  next
    case http
    from http(1) obtain r where s: "s = lit ''(http://'' @ r"
      by (auto simp: startswith_iff)
    then have d: "drop 8 s = r" by (simp add: lit_def)
    from match_url_body_Some[OF http(2)] d obtain body where
      b: "u = lit ''http://'' @ body" "body \<noteq> []" "list_all url_char body" "r = body @ 41 # rest"
      by auto
    have "is_http_url u"
      using b(1-3) lit_http_chars(1)
      by (cases body) (simp_all add: is_http_url_def startswith_append, simp add: lit_def)
    moreover have "s = 40 # u @ 41 # rest"
      using s b(1,4) by (simp add: lit_def)
    ultimately show ?thesis by simp
  qed
qed

lemma findall_url_occurs:
  "u \<in> set (findall_url s) \<Longrightarrow> is_http_url u \<and> contains (40 # u @ [41]) s"
proof (induction s rule: findall_url.induct)
  case 1
  then show ?case by simp
next
  case (2 c cs)
  show ?case
  proof (cases "match_url (c # cs)")
    case None
    with 2 have "is_http_url u \<and> contains (40 # u @ [41]) cs" by simp
    then show ?thesis by simp
  next
    case (Some p)
    obtain v rest where p: "p = (v, rest)" by (cases p)
    from Some p have m: "is_http_url v \<and> c # cs = 40 # v @ 41 # rest"
      by (auto dest: match_url_Some)
    from 2(3) Some p consider "u = v" | "u \<in> set (findall_url rest)" by auto
    then show ?thesis
    proof cases
      case 1
      from m have "c # cs = [] @ (40 # u @ [41]) @ rest" using 1 by simp
      then have "contains (40 # u @ [41]) (c # cs)"
        unfolding contains_iff by blast
      with m 1 show ?thesis by simp
    next
      case 2
      with "2.IH"(2)[OF Some] p have ih: "is_http_url u \<and> contains (40 # u @ [41]) rest"
        by simp
      then obtain pre post where "rest = pre @ (40 # u @ [41]) @ post"
        unfolding contains_iff by blast
      with m have "c # cs = (40 # v @ 41 # pre) @ (40 # u @ [41]) @ post" by simp
      then have "contains (40 # u @ [41]) (c # cs)"
        unfolding contains_iff by blast
      with ih show ?thesis by simp
    qed
  qed
qed

lemma extract_tool_links_set:
  "set (extract_tool_links md) = {u \<in> set (findall_url md). \<not> contains repo_marker u}"
  by (auto simp: extract_tool_links_def Let_def)

lemma extract_tool_links_any_order:
  assumes "distinct ys" "set ys = set (findall_url md)"
  shows "sort (filter (\<lambda>url. \<not> contains repo_marker url) ys) = extract_tool_links md"
proof (rule sorted_distinct_set_unique)
  show "set (sort (filter (\<lambda>url. \<not> contains repo_marker url) ys)) = set (extract_tool_links md)"
    using assms(2) by (auto simp: extract_tool_links_def Let_def)
qed (use assms(1) in \<open>simp_all add: extract_tool_links_def Let_def\<close>)

text \<open>
  C2. For every markdown text, the list \<open>extract_tool_links\<close> returns has no duplicates
  and is sorted lexicographically; it consists of the pattern's matches that do not contain
  the repository's own path segment, so no returned URL contains that segment, and every
  returned URL is an http/https URL that occurs between parentheses in the text.
\<close>

theorem extract_tool_links_spec:
  "distinct (extract_tool_links md) \<and> sorted (extract_tool_links md) \<and>
   set (extract_tool_links md) = {u \<in> set (findall_url md). \<not> contains repo_marker u} \<and>
   (\<forall>u \<in> set (extract_tool_links md).
      \<not> contains repo_marker u \<and> is_http_url u \<and> contains (40 # u @ [41]) md)"
proof -
  have d: "distinct (extract_tool_links md)"
    by (simp add: extract_tool_links_def Let_def)
  have s: "sorted (extract_tool_links md)"
    by (simp add: extract_tool_links_def Let_def)
  have m: "\<forall>u \<in> set (extract_tool_links md).
      \<not> contains repo_marker u \<and> is_http_url u \<and> contains (40 # u @ [41]) md"
    using findall_url_occurs by (auto simp: extract_tool_links_set)
  from d s m extract_tool_links_set show ?thesis by blast
qed

definition example_markdown :: pystr where
  "example_markdown = lit (''See [Tool](https://example.com/x) and [Repo]'' @
     ''(https://github.com/yousefebrahimi0/1000-AI-collection-tools/blob/main/x)'')"

lemma extract_tool_links_example:
  "extract_tool_links example_markdown = [lit ''https://example.com/x'']"
  by (simp add: extract_tool_links_def example_markdown_def repo_marker_def match_url_def
      match_url_body_def url_char_def isspace_def lit_def)

theorem extract_tool_links_spec_witness:
  "extract_tool_links example_markdown = [lit ''https://example.com/x''] \<and>
   \<not> contains repo_marker (lit ''https://example.com/x'') \<and>
   is_http_url (lit ''https://example.com/x'') \<and>
   contains (40 # lit ''https://example.com/x'' @ [41]) example_markdown"
proof -
  have "lit ''https://example.com/x'' \<in> set (extract_tool_links example_markdown)"
    by (simp add: extract_tool_links_example)
  with extract_tool_links_spec[of example_markdown] extract_tool_links_example
  show ?thesis by blast
qed


section \<open>More string operations\<close>

text \<open>\<^verbatim>\<open>s.strip()\<close>.\<close>

definition strip :: "pystr \<Rightarrow> pystr" where
  "strip s = rev (dropWhile isspace (rev (dropWhile isspace s)))"

text \<open>
  \<^verbatim>\<open>s.split(sep)\<close>, \<^verbatim>\<open>s.split(sep, 1)\<close> and \<^verbatim>\<open>s.replace(old, new)\<close> for a
  separator that is not empty, as every separator of the program is (Python raises
  \<^verbatim>\<open>ValueError\<close> on an empty separator). Occurrences are taken from left to right and do
  not overlap.
\<close>

function split :: "pystr \<Rightarrow> pystr \<Rightarrow> pystr list" where
  "split [] sep = [[]]"
| "split (c # cs) sep =
     (if sep \<noteq> [] \<and> startswith (c # cs) sep then [] # split (drop (length sep) (c # cs)) sep
      else (case split cs sep of [] \<Rightarrow> [[c]] | p # ps \<Rightarrow> (c # p) # ps))"
  by pat_completeness auto
termination
  by (relation "measure (\<lambda>(s, sep). length s)") auto

fun split1 :: "pystr \<Rightarrow> pystr \<Rightarrow> pystr list" where
  "split1 [] sep = [[]]"
| "split1 (c # cs) sep =
     (if sep \<noteq> [] \<and> startswith (c # cs) sep then [[], drop (length sep) (c # cs)]
      else (case split1 cs sep of [] \<Rightarrow> [[c]] | p # ps \<Rightarrow> (c # p) # ps))"

function replace :: "pystr \<Rightarrow> pystr \<Rightarrow> pystr \<Rightarrow> pystr" where
  "replace [] old new = []"
| "replace (c # cs) old new =
     (if old \<noteq> [] \<and> startswith (c # cs) old
      then new @ replace (drop (length old) (c # cs)) old new
      else c # replace cs old new)"
  by pat_completeness auto
termination
  by (relation "measure (\<lambda>(s, old, new). length s)") auto

text \<open>\<^verbatim>\<open>sep.join(xs)\<close>.\<close>

fun join :: "pystr \<Rightarrow> pystr list \<Rightarrow> pystr" where
  "join sep [] = []"
| "join sep [x] = x"
| "join sep (x # y # ys) = x @ sep @ join sep (y # ys)"

text \<open>Exceptions of the program, and \<^verbatim>\<open>xs[i]\<close> for an index that is not negative.\<close>

datatype py_error =
  IndexError | ValueError | ParserRejectedMarkup | RequestException | HTTPError

definition index :: "'a list \<Rightarrow> nat \<Rightarrow> py_error + 'a" where
  "index xs i = (if i < length xs then Inr (xs ! i) else Inl IndexError)"

section \<open>Parsed documents and library functions\<close>

text \<open>
  What the program reads of \<^verbatim>\<open>BeautifulSoup(html, "html.parser")\<close>: the first
  \<^verbatim>\<open>title\<close> tag (\<open>None\<close> when there is none) and inside it its \<^verbatim>\<open>.string\<close>; the
  first \<^verbatim>\<open>meta\<close> tag with property \<^verbatim>\<open>og:site_name\<close>, and the first with
  \<^verbatim>\<open>og:title\<close>, each with its \<^verbatim>\<open>content\<close> attribute when it has one; and
  \<^verbatim>\<open>find_all("a", href=True)\<close>, the anchors that have an \<^verbatim>\<open>href\<close>, in document
  order, each with its \<^verbatim>\<open>href\<close> and its \<^verbatim>\<open>get_text()\<close>.
\<close>

record anchor =
  href :: pystr
  get_text :: pystr

record soup =
  title_tag :: "pystr option option"
  og_site :: "pystr option option"
  og_title_tag :: "pystr option option"
  anchors :: "anchor list"

text \<open>
  The parser, \<^verbatim>\<open>urlparse(url).netloc\<close>, \<^verbatim>\<open>urljoin\<close>, \<^verbatim>\<open>str.lower\<close> and
  \<^verbatim>\<open>time.sleep\<close> are library code: they are parameters of the model, and every
  theorem holds whatever they compute. The parser can reject the markup, \<^verbatim>\<open>urlparse\<close>
  and \<^verbatim>\<open>urljoin\<close> raise \<^verbatim>\<open>ValueError\<close> on an address such as
  \<^verbatim>\<open>http://[x/jobs\<close>, and \<^verbatim>\<open>time.sleep\<close> raises on a negative length: each of
  them returns an exception or a value. The program catches none of these exceptions.
\<close>

record 'd lib =
  BeautifulSoup :: "pystr \<Rightarrow> py_error + soup"
  urlparse_netloc :: "pystr \<Rightarrow> py_error + pystr"
  urljoin :: "pystr \<Rightarrow> pystr \<Rightarrow> py_error + pystr"
  lower :: "pystr \<Rightarrow> pystr"
  time_sleep :: "'d \<Rightarrow> py_error + unit"

section \<open>Field heuristics\<close>

subsection \<open>Name and company\<close>

text \<open>The separators \<^verbatim>\<open>|\<close>, en dash (U+2013), \<^verbatim>\<open>-\<close>, bullet (U+2022), em dash (U+2014).\<close>

definition separators :: "pystr list" where
  "separators = [[124], [8211], [45], [8226], [8212]]"

text \<open>\<^verbatim>\<open>[p.strip() for p in name.split(sep) if p.strip()]\<close>\<close>

definition parts :: "pystr \<Rightarrow> pystr \<Rightarrow> pystr list" where
  "parts name sep = map strip (filter (\<lambda>p. strip p \<noteq> []) (split name sep))"

text \<open>
  The two clean-up loops: the first separator that occurs in the name and leaves a
  part that is not empty decides, and the loop breaks; \<^verbatim>\<open>parts[0]\<close> and
  \<^verbatim>\<open>parts[-1]\<close> are read under \<^verbatim>\<open>if parts\<close>.
\<close>

fun keep_first :: "pystr list \<Rightarrow> pystr \<Rightarrow> pystr" where
  "keep_first [] product_name = product_name"
| "keep_first (sep # seps) product_name =
     (if contains sep product_name then
        (case parts product_name sep of
           [] \<Rightarrow> keep_first seps product_name
         | p # ps \<Rightarrow> p)
      else keep_first seps product_name)"

fun keep_last :: "pystr list \<Rightarrow> pystr \<Rightarrow> pystr" where
  "keep_last [] company_name = company_name"
| "keep_last (sep # seps) company_name =
     (if contains sep company_name then
        (case parts company_name sep of
           [] \<Rightarrow> keep_last seps company_name
         | p # ps \<Rightarrow> last (p # ps))
      else keep_last seps company_name)"

text \<open>\<^verbatim>\<open>tag["content"].strip()\<close> under \<^verbatim>\<open>if tag and tag.get("content")\<close>, else the empty string.\<close>

definition stripped_content :: "pystr option option \<Rightarrow> pystr" where
  "stripped_content tag =
     (case tag of
        Some (Some c) \<Rightarrow> if c \<noteq> [] then strip c else []
      | _ \<Rightarrow> [])"

text \<open>
  The fallback of the company name calls \<^verbatim>\<open>urlparse\<close> only when the name is still
  empty; an exception of the parser or of \<^verbatim>\<open>urlparse\<close> is the result.
\<close>

definition domain_fallback :: "'d lib \<Rightarrow> pystr \<Rightarrow> pystr \<Rightarrow> py_error + pystr" where
  "domain_fallback L url company_name =
     (if company_name = [] then
        (case urlparse_netloc L url of
           Inl e \<Rightarrow> Inl e
         | Inr domain \<Rightarrow> Inr (replace domain (lit ''www.'') []))
      else Inr company_name)"

definition guess_product_name_and_company ::
  "'d lib \<Rightarrow> pystr \<Rightarrow> pystr \<Rightarrow> py_error + pystr \<times> pystr" where
  "guess_product_name_and_company L html url =
     (case BeautifulSoup L html of
        Inl e \<Rightarrow> Inl e
      | Inr soup \<Rightarrow>
          (let title = stripped_content (title_tag soup);
               og_site_name = stripped_content (og_site soup);
               og_title = stripped_content (og_title_tag soup);
               product_name = (if og_title \<noteq> [] then og_title else title);
               company_name = (if og_site_name \<noteq> [] then og_site_name else title);
               product_name = keep_first separators product_name;
               company_name = keep_last separators company_name
           in case domain_fallback L url company_name of
                Inl e \<Rightarrow> Inl e
              | Inr company_name \<Rightarrow>
                  Inr (if product_name = [] then company_name else product_name,
                       company_name)))"


subsection \<open>Emails\<close>

text \<open>
  \<^verbatim>\<open>re.compile(r"[A-Za-z0-9._%+-]+@[A-Za-z0-9.-]+\.[A-Za-z]{2,}")\<close>. The ranges are
  ASCII ranges of code points.
\<close>

definition alpha :: "nat \<Rightarrow> bool" where
  "alpha c \<longleftrightarrow> (65 \<le> c \<and> c \<le> 90) \<or> (97 \<le> c \<and> c \<le> 122)"

definition alnum :: "nat \<Rightarrow> bool" where
  "alnum c \<longleftrightarrow> alpha c \<or> (48 \<le> c \<and> c \<le> 57)"

definition local_char :: "nat \<Rightarrow> bool" where
  "local_char c \<longleftrightarrow> alnum c \<or> c = 46 \<or> c = 95 \<or> c = 37 \<or> c = 43 \<or> c = 45"

definition domain_char :: "nat \<Rightarrow> bool" where
  "domain_char c \<longleftrightarrow> alnum c \<or> c = 46 \<or> c = 45"

text \<open>
  \<^verbatim>\<open>[A-Za-z0-9.-]+\.[A-Za-z]{2,}\<close> at the head of \<open>t\<close>. The greedy \<^verbatim>\<open>+\<close> takes the
  longest run of domain characters and gives characters back one at a time, down to one,
  until a dot and at least two letters follow; \<open>k\<close> is the number of characters it
  keeps. The letters are then taken greedily, and nothing follows them in the pattern.
\<close>

definition match_domain :: "pystr \<Rightarrow> (pystr \<times> pystr) option" where
  "match_domain t =
     (let run = length (takeWhile domain_char t);
          fits = (\<lambda>k. startswith (drop k t) [46] \<and> 2 \<le> length (takeWhile alpha (drop (Suc k) t)))
      in case find fits (rev [1..<Suc run]) of
           None \<Rightarrow> None
         | Some k \<Rightarrow>
             (let tld = takeWhile alpha (drop (Suc k) t)
              in Some (take k t @ [46] @ tld, drop (Suc k + length tld) t)))"

text \<open>
  The whole pattern at the head of \<open>s\<close>: the longest run of local characters (a shorter
  one is followed by a local character, never by \<^verbatim>\<open>@\<close>), then \<^verbatim>\<open>@\<close>, then the
  domain. The result is the match and the text after it.
\<close>

definition match_email :: "pystr \<Rightarrow> (pystr \<times> pystr) option" where
  "match_email s =
     (let local = takeWhile local_char s; after = dropWhile local_char s
      in if local \<noteq> [] \<and> startswith after [64] then
           (case match_domain (drop 1 after) of
              None \<Rightarrow> None
            | Some p \<Rightarrow> Some (local @ [64] @ fst p, snd p))
         else None)"

lemma match_domain_shorter: "match_domain t = Some p \<Longrightarrow> length (snd p) \<le> length t"
  by (auto simp: match_domain_def Let_def split: option.splits)

lemma match_email_shorter:
  assumes "match_email (c # cs) = Some p"
  shows "length (snd p) < Suc (length cs)"
proof -
  let ?s = "c # cs"
  from assms obtain q where l: "takeWhile local_char ?s \<noteq> []"
    and q: "match_domain (drop 1 (dropWhile local_char ?s)) = Some q" and p: "snd p = snd q"
    by (auto simp: match_email_def Let_def split: if_splits option.splits)
  have "length (takeWhile local_char ?s) + length (dropWhile local_char ?s) = length ?s"
    by (metis length_append takeWhile_dropWhile_id)
  with l have "length (dropWhile local_char ?s) < length ?s"
    by (metis length_greater_0_conv less_add_same_cancel2)
  moreover from match_domain_shorter[OF q]
  have "length (snd q) \<le> length (dropWhile local_char ?s)" by simp
  ultimately show ?thesis using p by simp
qed

text \<open>\<^verbatim>\<open>plain_email_pattern.findall(html)\<close>\<close>

function findall_email :: "pystr \<Rightarrow> pystr list" where
  "findall_email [] = []"
| "findall_email (c # cs) =
     (case match_email (c # cs) of
        None \<Rightarrow> findall_email cs
      | Some p \<Rightarrow> fst p # findall_email (snd p))"
  by pat_completeness auto
termination
  by (relation "measure length") (auto dest: match_email_shorter)

text \<open>
  The loop over the anchors. \<^verbatim>\<open>href.split("mailto:", 1)[1].split("?", 1)[0]\<close> indexes
  two lists, and an index out of range raises \<^verbatim>\<open>IndexError\<close>. The set \<^verbatim>\<open>emails\<close> is
  the list of the additions; \<^verbatim>\<open>sorted(emails)\<close> sorts its distinct elements.
\<close>

definition mailto_target :: "pystr \<Rightarrow> py_error + pystr" where
  "mailto_target h =
     (case index (split1 h (lit ''mailto:'')) 1 of
        Inl e \<Rightarrow> Inl e
      | Inr rest \<Rightarrow> index (split1 rest (lit ''?'')) 0)"

fun mailto_loop :: "anchor list \<Rightarrow> pystr list \<Rightarrow> py_error + pystr list" where
  "mailto_loop [] emails = Inr emails"
| "mailto_loop (a # as) emails =
     (if startswith (href a) (lit ''mailto:'') then
        (case mailto_target (href a) of
           Inl e \<Rightarrow> Inl e
         | Inr email \<Rightarrow> mailto_loop as (emails @ [email]))
      else mailto_loop as emails)"

definition extract_emails :: "'d lib \<Rightarrow> pystr \<Rightarrow> py_error + pystr list" where
  "extract_emails L html =
     (case BeautifulSoup L html of
        Inl e \<Rightarrow> Inl e
      | Inr soup \<Rightarrow>
          (case mailto_loop (anchors soup) [] of
             Inl e \<Rightarrow> Inl e
           | Inr emails \<Rightarrow> Inr (sort (remdups (emails @ findall_email html)))))"

subsection \<open>Social links\<close>

fun social_loop :: "anchor list \<Rightarrow> pystr \<times> pystr \<Rightarrow> pystr \<times> pystr" where
  "social_loop [] (linkedin_url, twitter_url) = (linkedin_url, twitter_url)"
| "social_loop (a # as) (linkedin_url, twitter_url) =
     (let h = href a;
          linkedin_url =
            (if contains (lit ''linkedin.com'') h \<and> linkedin_url = [] then h else linkedin_url);
          twitter_url =
            (if (contains (lit ''twitter.com'') h \<or> contains (lit ''x.com'') h) \<and> twitter_url = []
             then h else twitter_url)
      in social_loop as (linkedin_url, twitter_url))"

definition extract_social_links :: "'d lib \<Rightarrow> pystr \<Rightarrow> py_error + pystr \<times> pystr" where
  "extract_social_links L html =
     (case BeautifulSoup L html of
        Inl e \<Rightarrow> Inl e
      | Inr soup \<Rightarrow> Inr (social_loop (anchors soup) ([], [])))"

subsection \<open>Careers page\<close>

definition careers_keywords :: "pystr list" where
  "careers_keywords =
     [lit ''careers'', lit ''jobs'', lit ''join-us'', lit ''joinus'', lit ''work-with-us'',
      lit ''work with us'']"

fun careers_loop :: "'d lib \<Rightarrow> pystr \<Rightarrow> anchor list \<Rightarrow> py_error + pystr" where
  "careers_loop L base_url [] = Inr []"
| "careers_loop L base_url (a # as) =
     (let text = lower L (strip (get_text a)); h = href a
      in if list_ex (\<lambda>kw. contains kw (lower L h)) careers_keywords \<or>
            list_ex (\<lambda>kw. contains kw text) careers_keywords
         then urljoin L base_url h
         else careers_loop L base_url as)"

definition find_careers_page :: "'d lib \<Rightarrow> pystr \<Rightarrow> pystr \<Rightarrow> py_error + pystr" where
  "find_careers_page L html base_url =
     (case BeautifulSoup L html of
        Inl e \<Rightarrow> Inl e
      | Inr soup \<Rightarrow> careers_loop L base_url (anchors soup))"


section \<open>Fetcher\<close>

definition GITHUB_URL :: pystr where
  "GITHUB_URL =
     lit ''https://raw.githubusercontent.com/yousefebrahimi0/1000-AI-collection-tools/main/README.md''"

definition HEADERS :: "(pystr \<times> pystr) list" where
  "HEADERS =
     [(lit ''User-Agent'', lit ''Mozilla/5.0 (compatible; ToolScraper/1.0; +https://example.com)'')]"

text \<open>
  The network is a parameter: \<^verbatim>\<open>requests.get(url, headers=..., timeout=...)\<close> reads and
  changes a world \<open>'w\<close>, and raises or returns a response. The run also keeps a trace of
  what the program does in order: requests, console lines and sleeps.
\<close>

record response =
  status_code :: nat
  resp_text :: pystr

type_synonym 'w http = "'w \<Rightarrow> pystr \<Rightarrow> (pystr \<times> pystr) list \<Rightarrow> nat \<Rightarrow> (py_error + response) \<times> 'w"

datatype 'd event =
    Request pystr
  | Print_found nat
  | Print_processing nat nat pystr
  | Print_warn pystr py_error
  | Sleep 'd

record ('w, 'd) io =
  world :: 'w
  trace :: "'d event list"

definition emit :: "'d event \<Rightarrow> ('w, 'd) io \<Rightarrow> ('w, 'd) io" where
  "emit e s = s\<lparr>trace := trace s @ [e]\<rparr>"

text \<open>\<^verbatim>\<open>resp.raise_for_status()\<close> raises for the status codes 400 to 599.\<close>

definition raise_for_status :: "response \<Rightarrow> py_error + unit" where
  "raise_for_status resp =
     (if 400 \<le> status_code resp \<and> status_code resp < 600 then Inl HTTPError else Inr ())"

text \<open>The three lines both fetchers share: the request, the status check, the text.\<close>

definition get_text_of :: "'w http \<Rightarrow> pystr \<Rightarrow> ('w, 'd) io \<Rightarrow> (py_error + pystr) \<times> ('w, 'd) io" where
  "get_text_of requests_get url s =
     (let (r, w) = requests_get (world s) url HEADERS 20;
          s = emit (Request url) (s\<lparr>world := w\<rparr>)
      in case r of
           Inl e \<Rightarrow> (Inl e, s)
         | Inr resp \<Rightarrow>
             (case raise_for_status resp of
                Inl e \<Rightarrow> (Inl e, s)
              | Inr _ \<Rightarrow> (Inr (resp_text resp), s)))"

definition get_readme_markdown :: "'w http \<Rightarrow> ('w, 'd) io \<Rightarrow> (py_error + pystr) \<times> ('w, 'd) io" where
  "get_readme_markdown requests_get s = get_text_of requests_get GITHUB_URL s"

text \<open>\<open>fetch_html\<close> catches every exception, prints a warning and returns \<^verbatim>\<open>None\<close>.\<close>

definition fetch_html :: "'w http \<Rightarrow> pystr \<Rightarrow> ('w, 'd) io \<Rightarrow> pystr option \<times> ('w, 'd) io" where
  "fetch_html requests_get url s =
     (case get_text_of requests_get url s of
        (Inl e, s) \<Rightarrow> (None, emit (Print_warn url e) s)
      | (Inr t, s) \<Rightarrow> (Some t, s))"

section \<open>Batch orchestrator\<close>

record tool_record =
  product_name :: pystr
  company :: pystr
  email :: pystr
  linkedin_url :: pystr
  twitter_url :: pystr
  careers_page :: pystr
  tool_url :: pystr

definition empty_record :: "pystr \<Rightarrow> tool_record" where
  "empty_record url =
     \<lparr>product_name = [], company = [], email = [], linkedin_url = [], twitter_url = [],
      careers_page = [], tool_url = url\<rparr>"

text \<open>
  One pass through the body of the \<^verbatim>\<open>for\<close> loop. \<^verbatim>\<open>if not html\<close> holds for
  \<^verbatim>\<open>None\<close> and for the empty string; that branch appends the record with empty fields
  and ends with \<^verbatim>\<open>continue\<close>. In the other branch the four heuristics run in the
  order of the source, then the record is appended, then the program sleeps; an exception
  of a heuristic or of \<^verbatim>\<open>time.sleep\<close> is not caught and ends the run, and the sleep is
  in the trace only when \<^verbatim>\<open>time.sleep\<close> returned. (The local variables that
  share a name with a field of the record have a shorter name here.)
\<close>

definition heuristics :: "'d lib \<Rightarrow> pystr \<Rightarrow> pystr \<Rightarrow> py_error + tool_record" where
  "heuristics L html url =
     (case guess_product_name_and_company L html url of
        Inl e \<Rightarrow> Inl e
      | Inr (name, company_name) \<Rightarrow>
          (case extract_emails L html of
             Inl e \<Rightarrow> Inl e
           | Inr emails \<Rightarrow>
               (case extract_social_links L html of
                  Inl e \<Rightarrow> Inl e
                | Inr (linkedin, twitter) \<Rightarrow>
                    (case find_careers_page L html url of
                       Inl e \<Rightarrow> Inl e
                     | Inr careers \<Rightarrow>
                         Inr \<lparr>product_name = name, company = company_name,
                              email = join (lit ''; '') emails, linkedin_url = linkedin,
                              twitter_url = twitter, careers_page = careers,
                              tool_url = url\<rparr>))))"

definition loop_body ::
  "'d lib \<Rightarrow> 'w http \<Rightarrow> 'd \<Rightarrow> nat \<Rightarrow> nat \<Rightarrow> pystr \<Rightarrow> tool_record list \<times> ('w, 'd) io
     \<Rightarrow> py_error + tool_record list \<times> ('w, 'd) io" where
  "loop_body L requests_get delay n i url st =
     (let (records, s) = st;
          s = emit (Print_processing i n url) s;
          (html, s) = fetch_html requests_get url s
      in if html = None \<or> html = Some [] then Inr (records @ [empty_record url], s)
         else
           (case heuristics L (the html) url of
              Inl e \<Rightarrow> Inl e
            | Inr record \<Rightarrow>
                (case time_sleep L delay of
                   Inl e \<Rightarrow> Inl e
                 | Inr _ \<Rightarrow> Inr (records @ [record], emit (Sleep delay) s))))"

fun scrape_loop ::
  "'d lib \<Rightarrow> 'w http \<Rightarrow> 'd \<Rightarrow> nat \<Rightarrow> (nat \<times> pystr) list \<Rightarrow> tool_record list \<times> ('w, 'd) io
     \<Rightarrow> py_error + tool_record list \<times> ('w, 'd) io" where
  "scrape_loop L requests_get delay n [] st = Inr st"
| "scrape_loop L requests_get delay n ((i, url) # rest) st =
     (case loop_body L requests_get delay n i url st of
        Inl e \<Rightarrow> Inl e
      | Inr st' \<Rightarrow> scrape_loop L requests_get delay n rest st')"

text \<open>\<^verbatim>\<open>enumerate(tool_urls, start=1)\<close>\<close>

definition enumerate1 :: "'a list \<Rightarrow> (nat \<times> 'a) list" where
  "enumerate1 xs = zip [1..<Suc (length xs)] xs"

text \<open>
  \<^verbatim>\<open>if limit: tool_urls = tool_urls[:limit]\<close>. The limit is \<^verbatim>\<open>None\<close> or an integer;
  \<^verbatim>\<open>None\<close> and \<open>0\<close> are false. A slice with a negative bound counts from the end.
\<close>

definition slice_to :: "'a list \<Rightarrow> int \<Rightarrow> 'a list" where
  "slice_to xs k = (if 0 \<le> k then take (nat k) xs else take (nat (int (length xs) + k)) xs)"

definition apply_limit :: "int option \<Rightarrow> pystr list \<Rightarrow> pystr list" where
  "apply_limit limit tool_urls =
     (case limit of
        None \<Rightarrow> tool_urls
      | Some k \<Rightarrow> if k \<noteq> 0 then slice_to tool_urls k else tool_urls)"

text \<open>
  The run returns the records; the model returns with them the world and the trace it
  leaves. An exception that is not caught is the result \<open>Inl\<close>.
\<close>

definition scrape_all_tools ::
  "'d lib \<Rightarrow> 'w http \<Rightarrow> int option \<Rightarrow> 'd \<Rightarrow> ('w, 'd) io \<Rightarrow> py_error + tool_record list \<times> ('w, 'd) io" where
  "scrape_all_tools L requests_get limit delay s =
     (case get_readme_markdown requests_get s of
        (Inl e, s) \<Rightarrow> Inl e
      | (Inr md, s) \<Rightarrow>
          (let tool_urls = extract_tool_links md;
               s = emit (Print_found (length tool_urls)) s;
               tool_urls = apply_limit limit tool_urls
           in scrape_loop L requests_get delay (length tool_urls) (enumerate1 tool_urls) ([], s)))"

section \<open>Exporters\<close>













section \<open>Examples of library functions\<close>

text \<open>
  For the examples: a library whose parser returns a given document, with the netloc of
  a well-formed http(s) URL (the text between \<^verbatim>\<open>//\<close> and the first \<^verbatim>\<open>/\<close>,
  \<^verbatim>\<open>?\<close> or \<^verbatim>\<open>#\<close>), \<^verbatim>\<open>urljoin\<close> on an absolute link, \<^verbatim>\<open>lower\<close> on a
  string without capitals, and a sleep that raises on a negative length.
\<close>

definition http_netloc :: "pystr \<Rightarrow> pystr" where
  "http_netloc url =
     (let rest = (if startswith url (lit ''https://'') then drop 8 url
                  else if startswith url (lit ''http://'') then drop 7 url else [])
      in takeWhile (\<lambda>c. c \<noteq> 47 \<and> c \<noteq> 63 \<and> c \<noteq> 35) rest)"

definition example_lib :: "soup \<Rightarrow> real lib" where
  "example_lib doc =
     \<lparr>BeautifulSoup = (\<lambda>html. Inr doc), urlparse_netloc = (\<lambda>url. Inr (http_netloc url)),
      urljoin = (\<lambda>base h. Inr h), lower = (\<lambda>s. s),
      time_sleep = (\<lambda>d. if d < 0 then Inl ValueError else Inr ())\<rparr>"

definition acme_title :: pystr where
  "acme_title = lit ''Acme '' @ [8212] @ lit '' Acme Corp''"

definition acme_doc :: soup where
  "acme_doc = \<lparr>title_tag = Some (Some acme_title), og_site = None, og_title_tag = None, anchors = []\<rparr>"

definition bare_doc :: soup where
  "bare_doc = \<lparr>title_tag = None, og_site = None, og_title_tag = None, anchors = []\<rparr>"

lemma keep_first_acme: "keep_first separators acme_title = lit ''Acme''"
  by (simp add: separators_def acme_title_def lit_def parts_def strip_def isspace_def)

lemma keep_last_acme: "keep_last separators acme_title = lit ''Acme Corp''"
  by (simp add: separators_def acme_title_def lit_def parts_def strip_def isspace_def)

lemma strip_acme: "strip acme_title = acme_title"
  by (simp add: acme_title_def lit_def strip_def isspace_def)

text \<open>
  C3. When the parser finds the title \<^verbatim>\<open>Acme\<close>, em dash, \<^verbatim>\<open>Acme Corp\<close> and
  neither an \<^verbatim>\<open>og:title\<close> nor an \<^verbatim>\<open>og:site_name\<close> meta tag, the product name is
  \<^verbatim>\<open>Acme\<close> and the company name is \<^verbatim>\<open>Acme Corp\<close>, for every URL.
\<close>

theorem guess_acme:
  assumes p: "BeautifulSoup L html = Inr doc"
    and t: "title_tag doc = Some (Some acme_title)"
    and s: "og_site doc = None"
    and g: "og_title_tag doc = None"
  shows "guess_product_name_and_company L html url = Inr (lit ''Acme'', lit ''Acme Corp'')"
proof -
  have title: "stripped_content (title_tag doc) = acme_title"
    using t by (simp add: stripped_content_def strip_acme)
  have og: "stripped_content (og_site doc) = []" "stripped_content (og_title_tag doc) = []"
    using s g by (simp_all add: stripped_content_def)
  have ne: "lit ''Acme'' \<noteq> []" "lit ''Acme Corp'' \<noteq> []"
    by (simp_all add: lit_def)
  show ?thesis
    using ne
    by (simp add: guess_product_name_and_company_def p Let_def title og keep_first_acme
        keep_last_acme domain_fallback_def)
qed


definition acme_page :: pystr where
  "acme_page = lit ''<title>'' @ acme_title @ lit ''</title>''"

theorem guess_acme_witness:
  "guess_product_name_and_company (example_lib acme_doc) acme_page (lit ''https://acme.example/'')
     = Inr (lit ''Acme'', lit ''Acme Corp'')"
  by (rule guess_acme[where doc = acme_doc]) (simp_all add: example_lib_def acme_doc_def)

lemma guess_acme_example:
  "guess_product_name_and_company (example_lib acme_doc) html url =
     Inr (lit ''Acme'', lit ''Acme Corp'')"
proof -
  have "lit ''Acme'' \<noteq> []" "lit ''Acme Corp'' \<noteq> []" "acme_title \<noteq> []"
    by (simp_all add: lit_def acme_title_def)
  then show ?thesis
    by (simp add: guess_product_name_and_company_def example_lib_def acme_doc_def Let_def
        stripped_content_def strip_acme keep_first_acme keep_last_acme domain_fallback_def)
qed

text \<open>
  The fallback of the company name: when the page parses and the title and the
  \<^verbatim>\<open>og:site_name\<close> content are both empty, the company is the netloc with every
  occurrence of \<^verbatim>\<open>www.\<close> removed.
\<close>

lemma company_fallback:
  assumes "BeautifulSoup L html = Inr doc"
    and "stripped_content (title_tag doc) = []"
    and "stripped_content (og_site doc) = []"
    and "urlparse_netloc L url = Inr domain"
  shows "\<exists>name. guess_product_name_and_company L html url =
           Inr (name, replace domain (lit ''www.'') [])"
  using assms
  by (simp add: guess_product_name_and_company_def Let_def separators_def domain_fallback_def)

text \<open>
  C5. The claim is that only a leading \<^verbatim>\<open>www.\<close> is removed from the host. For the
  page without title at \<^verbatim>\<open>https://awww.example.com/\<close> the program returns the company
  \<^verbatim>\<open>aexample.com\<close>: \<^verbatim>\<open>replace\<close> also removes the \<^verbatim>\<open>www.\<close> inside the host.
\<close>

theorem guess_company_inner_www:
  "guess_product_name_and_company (example_lib bare_doc) (lit ''<html></html>'')
     (lit ''https://awww.example.com/'') = Inr (lit ''aexample.com'', lit ''aexample.com'')"
  by (simp add: guess_product_name_and_company_def Let_def example_lib_def bare_doc_def
      stripped_content_def separators_def http_netloc_def domain_fallback_def lit_def)

subsection \<open>Facts about the email extraction\<close>

text \<open>
  The address of a \<^verbatim>\<open>mailto:\<close> link in the words of the specification: the text after
  \<^verbatim>\<open>mailto:\<close>, without the query string that a \<^verbatim>\<open>?\<close> starts.
\<close>

definition mailto_address :: "pystr \<Rightarrow> pystr" where
  "mailto_address h = takeWhile (\<lambda>c. c \<noteq> 63) (drop 7 h)"

text \<open>A string that the email pattern matches as a whole.\<close>

definition is_email :: "pystr \<Rightarrow> bool" where
  "is_email e \<longleftrightarrow>
     (\<exists>local dom tld. e = local @ 64 # dom @ 46 # tld \<and>
        local \<noteq> [] \<and> list_all local_char local \<and>
        dom \<noteq> [] \<and> list_all domain_char dom \<and>
        2 \<le> length tld \<and> list_all alpha tld)"

lemma split1_prefix:
  "p \<noteq> [] \<Longrightarrow> startswith h p \<Longrightarrow> split1 h p = [[], drop (length p) h]"
  by (cases h; cases p) auto

lemma split1_head:
  "split1 s [c] \<noteq> [] \<and> hd (split1 s [c]) = takeWhile (\<lambda>x. x \<noteq> c) s"
  by (induction s) (auto split: list.splits)

lemma mailto_target_eq:
  assumes "startswith h (lit ''mailto:'')"
  shows "mailto_target h = Inr (mailto_address h)"
proof -
  have len: "length (lit ''mailto:'') = 7" and ne: "lit ''mailto:'' \<noteq> []"
    by (simp_all add: lit_def)
  have "split1 h (lit ''mailto:'') = [[], drop 7 h]"
    using split1_prefix[OF ne assms] unfolding len .
  then have "index (split1 h (lit ''mailto:'')) 1 = Inr (drop 7 h)"
    by (simp add: index_def)
  moreover have "index (split1 (drop 7 h) (lit ''?'')) 0 = Inr (mailto_address h)"
    using split1_head[of "drop 7 h" 63]
    by (cases "split1 (drop 7 h) [63]") (simp_all add: index_def lit_def mailto_address_def)
  ultimately show ?thesis by (simp add: mailto_target_def)
qed

lemma mailto_loop_eq:
  "mailto_loop as emails =
     Inr (emails @ map mailto_address
            (filter (\<lambda>h. startswith h (lit ''mailto:'')) (map href as)))"
  by (induction as arbitrary: emails) (simp_all add: mailto_target_eq)

lemma find_SomeD': "find P xs = Some x \<Longrightarrow> P x \<and> x \<in> set xs"
  by (induction xs) (auto split: if_splits)

lemma match_domain_Some:
  assumes "match_domain t = Some (d, rest)"
  shows "\<exists>dom tld. d = dom @ 46 # tld \<and> dom \<noteq> [] \<and> list_all domain_char dom \<and>
           2 \<le> length tld \<and> list_all alpha tld \<and> t = d @ rest"
proof -
  let ?run = "length (takeWhile domain_char t)"
  let ?fits = "\<lambda>k. startswith (drop k t) [46] \<and> 2 \<le> length (takeWhile alpha (drop (Suc k) t))"
  from assms obtain k where f: "find ?fits (rev [1..<Suc ?run]) = Some k"
    and d: "d = take k t @ [46] @ takeWhile alpha (drop (Suc k) t)"
    and r: "rest = drop (Suc k + length (takeWhile alpha (drop (Suc k) t))) t"
    by (auto simp: match_domain_def Let_def split: option.splits)
  let ?tld = "takeWhile alpha (drop (Suc k) t)"
  from find_SomeD'[OF f] have k: "1 \<le> k" "k \<le> ?run" and dot: "startswith (drop k t) [46]"
    and two: "2 \<le> length ?tld"
    by auto
  have run: "?run \<le> length t" by (rule length_takeWhile_le)
  have "take k t = take k (takeWhile domain_char t @ dropWhile domain_char t)" by simp
  also have "\<dots> = take k (takeWhile domain_char t)" using k(2) by (simp del: takeWhile_dropWhile_id)
  finally have "set (take k t) \<subseteq> set (takeWhile domain_char t)" by (metis set_take_subset)
  then have dom: "list_all domain_char (take k t)"
    by (auto simp: list_all_iff dest: set_takeWhileD)
  have ne: "take k t \<noteq> []" using k run by auto
  from dot obtain r' where "drop k t = 46 # r'" by (auto simp: startswith_iff)
  then have dk: "drop k t = 46 # drop (Suc k) t"
    by (metis drop_Suc list.sel(3) tl_drop)
  have "drop (Suc k + length ?tld) t = drop (length ?tld) (drop (Suc k) t)"
    by (simp add: add.commute)
  also have "\<dots> = dropWhile alpha (drop (Suc k) t)"
    by (metis append_eq_conv_conj takeWhile_dropWhile_id)
  finally have rest: "rest = dropWhile alpha (drop (Suc k) t)" using r by simp
  have "t = take k t @ drop k t" by simp
  also have "\<dots> = take k t @ 46 # (?tld @ dropWhile alpha (drop (Suc k) t))"
    using dk by simp
  finally have t: "t = d @ rest" using d rest by simp
  have al: "list_all alpha ?tld" by (auto simp: list_all_iff dest: set_takeWhileD)
  from d have d': "d = take k t @ 46 # ?tld" by simp
  from d' ne dom two al t show ?thesis by blast
qed

lemma match_email_Some:
  assumes "match_email s = Some (e, rest)"
  shows "is_email e \<and> s = e @ rest"
proof -
  let ?local = "takeWhile local_char s" and ?after = "dropWhile local_char s"
  from assms obtain d where l: "?local \<noteq> []" and at: "startswith ?after [64]"
    and m: "match_domain (drop 1 ?after) = Some (d, rest)" and e: "e = ?local @ [64] @ d"
    by (auto simp: match_email_def Let_def split: if_splits option.splits)
  from at have a: "?after = 64 # drop 1 ?after"
    by (cases ?after) auto
  from match_domain_Some[OF m] obtain dom tld where
    d: "d = dom @ 46 # tld" "dom \<noteq> []" "list_all domain_char dom" "2 \<le> length tld"
       "list_all alpha tld" "drop 1 ?after = d @ rest"
    by blast
  have "s = ?local @ ?after" by simp
  also have "\<dots> = ?local @ 64 # d @ rest" using a d(6) by simp
  finally have s: "s = e @ rest" using e by simp
  have "list_all local_char ?local" by (auto simp: list_all_iff dest: set_takeWhileD)
  with l d(1-5) e have "is_email e"
    unfolding is_email_def by (intro exI[of _ ?local] exI[of _ dom] exI[of _ tld]) simp
  with s show ?thesis by simp
qed

lemma findall_email_occurs:
  "e \<in> set (findall_email s) \<Longrightarrow> is_email e \<and> contains e s"
proof (induction s rule: findall_email.induct)
  case 1
  then show ?case by simp
next
  case (2 c cs)
  show ?case
  proof (cases "match_email (c # cs)")
    case None
    with 2 have "is_email e \<and> contains e cs" by simp
    then show ?thesis by simp
  next
    case (Some p)
    obtain v rest where p: "p = (v, rest)" by (cases p)
    from Some p have m: "is_email v \<and> c # cs = v @ rest"
      by (auto dest: match_email_Some)
    from 2(3) Some p consider "e = v" | "e \<in> set (findall_email rest)" by auto
    then show ?thesis
    proof cases
      case 1
      from m have "c # cs = [] @ e @ rest" using 1 by simp
      then have "contains e (c # cs)" unfolding contains_iff by blast
      with m 1 show ?thesis by simp
    next
      case 2
      with "2.IH"(2)[OF Some] p have ih: "is_email e \<and> contains e rest" by simp
      then obtain pre post where "rest = pre @ e @ post" unfolding contains_iff by blast
      with m have "c # cs = (v @ pre) @ e @ post" by simp
      then have "contains e (c # cs)" unfolding contains_iff by blast
      with ih show ?thesis by simp
    qed
  qed
qed


lemma extract_emails_parsed:
  assumes "BeautifulSoup L html = Inr doc"
  shows "extract_emails L html =
     Inr (sort (remdups (map mailto_address
            (filter (\<lambda>h. startswith h (lit ''mailto:'')) (map href (anchors doc)))
          @ findall_email html)))"
  using assms by (simp add: extract_emails_def mailto_loop_eq)

lemma extract_emails_rejected:
  "BeautifulSoup L html = Inl e \<Longrightarrow> extract_emails L html = Inl e"
  by (simp add: extract_emails_def)

text \<open>
  C7. For every HTML text that the parser accepts, \<open>extract_emails\<close> returns a list
  that has no address twice and is sorted; its addresses are those of the
  \<^verbatim>\<open>mailto:\<close> links, each without its query string, together with the matches of the
  email pattern in the raw text, and every such match is a part of the text that the
  pattern matches. (When the parser rejects the text, its exception is the result: lemma
  \<open>extract_emails_rejected\<close>.)
\<close>

theorem extract_emails_spec:
  assumes "BeautifulSoup L html = Inr doc"
  shows "\<exists>es. extract_emails L html = Inr es \<and> distinct es \<and> sorted es \<and>
     set es =
       mailto_address ` {h \<in> href ` set (anchors doc). startswith h (lit ''mailto:'')}
       \<union> set (findall_email html) \<and>
     (\<forall>e \<in> set (findall_email html). is_email e \<and> contains e html)"
proof -
  let ?m = "map mailto_address
     (filter (\<lambda>h. startswith h (lit ''mailto:'')) (map href (anchors doc)))"
  let ?es = "sort (remdups (?m @ findall_email html))"
  have r: "extract_emails L html = Inr ?es"
    by (rule extract_emails_parsed[OF assms])
  have d: "distinct ?es" by simp
  have s: "sorted ?es" by simp
  have u: "set ?es =
       mailto_address ` {h \<in> href ` set (anchors doc). startswith h (lit ''mailto:'')}
       \<union> set (findall_email html)"
    by auto
  have f: "\<forall>e \<in> set (findall_email html). is_email e \<and> contains e html"
    using findall_email_occurs by blast
  from r d s u f show ?thesis by blast
qed

definition mail_html :: pystr where
  "mail_html = lit ''<a href=mailto:bob@acme.io?subject=x>m</a> bob@acme.io ann@acme.io''"

definition mail_doc :: soup where
  "mail_doc =
     \<lparr>title_tag = None, og_site = None, og_title_tag = None,
      anchors = [\<lparr>href = lit ''mailto:bob@acme.io?subject=x'', get_text = lit ''m''\<rparr>]\<rparr>"

lemma findall_email_example:
  "findall_email mail_html = [lit ''bob@acme.io'', lit ''bob@acme.io'', lit ''ann@acme.io'']"
  by (simp add: mail_html_def lit_def match_email_def match_domain_def local_char_def
      domain_char_def alnum_def alpha_def Let_def)

lemma extract_emails_example:
  "extract_emails (example_lib mail_doc) mail_html = Inr [lit ''ann@acme.io'', lit ''bob@acme.io'']"
  by (simp add: extract_emails_def example_lib_def mail_doc_def mailto_target_def index_def
      findall_email_example lit_def)

theorem extract_emails_spec_witness:
  "extract_emails (example_lib mail_doc) mail_html = Inr [lit ''ann@acme.io'', lit ''bob@acme.io''] \<and>
   is_email (lit ''ann@acme.io'') \<and> contains (lit ''ann@acme.io'') mail_html"
proof -
  have p: "BeautifulSoup (example_lib mail_doc) mail_html = Inr mail_doc"
    by (simp add: example_lib_def)
  have "lit ''ann@acme.io'' \<in> set (findall_email mail_html)"
    by (simp add: findall_email_example)
  with extract_emails_spec[OF p] extract_emails_example
  show ?thesis by blast
qed

subsection \<open>Facts about the social links\<close>

text \<open>
  The specification's words: the \<^verbatim>\<open>href\<close> of the first anchor, in document order, whose
  \<^verbatim>\<open>href\<close> satisfies a test, and the empty string when there is none.
\<close>

definition first_href :: "(pystr \<Rightarrow> bool) \<Rightarrow> anchor list \<Rightarrow> pystr" where
  "first_href P as = (case find P (map href as) of None \<Rightarrow> [] | Some h \<Rightarrow> h)"

definition is_linkedin :: "pystr \<Rightarrow> bool" where
  "is_linkedin h \<longleftrightarrow> contains (lit ''linkedin.com'') h"

definition is_twitter :: "pystr \<Rightarrow> bool" where
  "is_twitter h \<longleftrightarrow> contains (lit ''twitter.com'') h \<or> contains (lit ''x.com'') h"

lemma is_linkedin_nonempty: "is_linkedin h \<Longrightarrow> h \<noteq> []"
  unfolding is_linkedin_def by (cases h) (auto simp: lit_def)

lemma is_twitter_nonempty: "is_twitter h \<Longrightarrow> h \<noteq> []"
  unfolding is_twitter_def by (cases h) (auto simp: lit_def)

lemma first_href_Cons:
  "first_href P (a # as) = (if P (href a) then href a else first_href P as)"
  by (simp add: first_href_def)

lemma social_loop_first:
  "social_loop as (l, t) =
     (if l \<noteq> [] then l else first_href is_linkedin as,
      if t \<noteq> [] then t else first_href is_twitter as)"
proof (induction as arbitrary: l t)
  case Nil
  then show ?case by (simp add: first_href_def)
next
  case (Cons a as)
  let ?h = "href a"
  let ?l = "if is_linkedin ?h \<and> l = [] then ?h else l"
  let ?t = "if is_twitter ?h \<and> t = [] then ?h else t"
  have step: "social_loop (a # as) (l, t) = social_loop as (?l, ?t)"
    by (simp add: Let_def is_linkedin_def is_twitter_def)
  have l: "(if ?l \<noteq> [] then ?l else first_href is_linkedin as) =
           (if l \<noteq> [] then l else first_href is_linkedin (a # as))"
    using is_linkedin_nonempty[of ?h] by (simp add: first_href_Cons)
  have t: "(if ?t \<noteq> [] then ?t else first_href is_twitter as) =
           (if t \<noteq> [] then t else first_href is_twitter (a # as))"
    using is_twitter_nonempty[of ?h] by (simp add: first_href_Cons)
  show ?case unfolding step Cons.IH l t ..
qed


lemma extract_social_links_rejected:
  "BeautifulSoup L html = Inl e \<Longrightarrow> extract_social_links L html = Inl e"
  by (simp add: extract_social_links_def)

text \<open>
  C8. For every HTML text that the parser accepts, \<open>extract_social_links\<close> returns the
  \<^verbatim>\<open>href\<close> of the first anchor in document order whose \<^verbatim>\<open>href\<close> contains
  \<^verbatim>\<open>linkedin.com\<close>, and the \<^verbatim>\<open>href\<close> of the first whose \<^verbatim>\<open>href\<close> contains
  \<^verbatim>\<open>twitter.com\<close> or \<^verbatim>\<open>x.com\<close>; a platform without such an anchor gets the empty
  string. Later anchors do not matter: \<open>find\<close> returns the first element that passes
  the test. (When the parser rejects the text, its exception is the result: lemma
  \<open>extract_social_links_rejected\<close>.)
\<close>

theorem extract_social_links_first:
  assumes "BeautifulSoup L html = Inr doc"
  shows "extract_social_links L html =
     Inr (first_href is_linkedin (anchors doc), first_href is_twitter (anchors doc))"
proof -
  have "extract_social_links L html = Inr (social_loop (anchors doc) ([], []))"
    using assms by (simp add: extract_social_links_def)
  also have "\<dots> = Inr (first_href is_linkedin (anchors doc), first_href is_twitter (anchors doc))"
    by (simp add: social_loop_first)
  finally show ?thesis .
qed

definition two_linkedin_html :: pystr where
  "two_linkedin_html =
     lit ''<a href=https://linkedin.com/a>a</a><a href=https://linkedin.com/b>b</a>''"

definition two_linkedin_doc :: soup where
  "two_linkedin_doc =
     \<lparr>title_tag = None, og_site = None, og_title_tag = None,
      anchors = [\<lparr>href = lit ''https://linkedin.com/a'', get_text = lit ''a''\<rparr>,
                 \<lparr>href = lit ''https://linkedin.com/b'', get_text = lit ''b''\<rparr>]\<rparr>"

theorem extract_social_links_first_witness:
  "extract_social_links (example_lib two_linkedin_doc) two_linkedin_html
     = Inr (lit ''https://linkedin.com/a'', [])"
proof -
  have p: "BeautifulSoup (example_lib two_linkedin_doc) two_linkedin_html = Inr two_linkedin_doc"
    by (simp add: example_lib_def)
  show ?thesis
    unfolding extract_social_links_first[OF p]
    by (simp add: two_linkedin_doc_def first_href_def is_linkedin_def is_twitter_def lit_def)
qed


section \<open>Facts about the orchestrator\<close>

text \<open>What \<open>fetch_html\<close> returns for the result of the request, and the sleeps of a trace.\<close>

definition fetch_result :: "py_error + response \<Rightarrow> pystr option" where
  "fetch_result r =
     (case r of
        Inl e \<Rightarrow> None
      | Inr resp \<Rightarrow> (case raise_for_status resp of Inl e \<Rightarrow> None | Inr _ \<Rightarrow> Some (resp_text resp)))"

fun sleeps :: "'d event list \<Rightarrow> 'd list" where
  "sleeps [] = []"
| "sleeps (Sleep d # es) = d # sleeps es"
| "sleeps (e # es) = sleeps es"

lemma sleeps_append: "sleeps (xs @ ys) = sleeps xs @ sleeps ys"
  by (induction xs rule: sleeps.induct) auto

lemma emit_simps: "world (emit e s) = world s" "trace (emit e s) = trace s @ [e]"
  by (simp_all add: emit_def)

lemma fetch_html_result:
  "fst (fetch_html requests_get url s) = fetch_result (fst (requests_get (world s) url HEADERS 20))"
  by (simp add: fetch_html_def get_text_of_def fetch_result_def Let_def
      split: prod.splits sum.splits)

lemma fetch_html_world:
  "world (snd (fetch_html requests_get url s)) = snd (requests_get (world s) url HEADERS 20)"
  by (simp add: fetch_html_def get_text_of_def Let_def emit_simps split: prod.splits sum.splits)

lemma fetch_html_sleeps:
  "sleeps (trace (snd (fetch_html requests_get url s))) = sleeps (trace s)"
  by (simp add: fetch_html_def get_text_of_def Let_def emit_simps sleeps_append
      split: prod.splits sum.splits)

lemma heuristics_tool_url: "heuristics L html url = Inr r \<Longrightarrow> tool_url r = url"
  by (auto simp: heuristics_def split: sum.splits prod.splits)

text \<open>The three ways a pass through the loop body can go.\<close>

lemma loop_body_placeholder:
  assumes "fetch_html requests_get url (emit (Print_processing i n url) s) = (html, s1)"
    and "html = None \<or> html = Some []"
  shows "loop_body L requests_get delay n i url (records, s) =
         Inr (records @ [empty_record url], s1)"
  using assms by (auto simp: loop_body_def Let_def)

lemma loop_body_record:
  assumes "fetch_html requests_get url (emit (Print_processing i n url) s) = (Some t, s1)"
    and "t \<noteq> []"
    and "heuristics L t url = Inr r"
    and "time_sleep L delay = Inr ()"
  shows "loop_body L requests_get delay n i url (records, s) =
         Inr (records @ [r], emit (Sleep delay) s1)"
  using assms by (simp add: loop_body_def Let_def)

lemma loop_body_raises:
  assumes "fetch_html requests_get url (emit (Print_processing i n url) s) = (Some t, s1)"
    and "t \<noteq> []"
    and "heuristics L t url = Inl e \<or> (\<exists>r. heuristics L t url = Inr r) \<and> time_sleep L delay = Inl e"
  shows "loop_body L requests_get delay n i url (records, s) = Inl e"
  using assms by (auto simp: loop_body_def Let_def)

lemma loop_body_Inr:
  assumes f: "fetch_html requests_get url (emit (Print_processing i n url) s) = (html, s1)"
    and r: "loop_body L requests_get delay n i url (records, s) = Inr st"
  shows "\<exists>r. st = (records @ [r],
                    if html = None \<or> html = Some [] then s1 else emit (Sleep delay) s1) \<and>
              tool_url r = url \<and>
              (html = None \<or> html = Some [] \<longrightarrow> r = empty_record url) \<and>
              (html \<noteq> None \<and> html \<noteq> Some [] \<longrightarrow>
                 heuristics L (the html) url = Inr r \<and> time_sleep L delay = Inr ())"
proof (cases "html = None \<or> html = Some []")
  case True
  from loop_body_placeholder[OF f True, of L delay records] r
  have "st = (records @ [empty_record url], s1)" by simp
  with True show ?thesis by (auto simp: empty_record_def)
next
  case False
  then obtain t where t: "html = Some t" "t \<noteq> []" by auto
  from r f t obtain rec where h: "heuristics L t url = Inr rec"
    and sl: "time_sleep L delay = Inr ()"
    and st: "st = (records @ [rec], emit (Sleep delay) s1)"
    by (auto simp: loop_body_def Let_def split: sum.splits)
  from h have "tool_url rec = url" by (rule heuristics_tool_url)
  with h sl st t False show ?thesis by simp
qed

lemma loop_body_returns:
  assumes "loop_body L requests_get delay n i url (records, s) = Inr st"
  shows "\<exists>r s'. st = (records @ [r], s') \<and> tool_url r = url \<and>
     world s' = snd (requests_get (world s) url HEADERS 20) \<and>
     (fetch_result (fst (requests_get (world s) url HEADERS 20)) = None \<or>
      fetch_result (fst (requests_get (world s) url HEADERS 20)) = Some []
        \<longrightarrow> r = empty_record url)"
proof -
  let ?s0 = "emit (Print_processing i n url) s"
  obtain html s1 where f: "fetch_html requests_get url ?s0 = (html, s1)"
    by (cases "fetch_html requests_get url ?s0")
  have h: "html = fetch_result (fst (requests_get (world s) url HEADERS 20))"
    using fetch_html_result[of requests_get url ?s0] f by (simp add: emit_simps)
  have w: "world s1 = snd (requests_get (world s) url HEADERS 20)"
    using fetch_html_world[of requests_get url ?s0] f by (simp add: emit_simps)
  from loop_body_Inr[OF f assms] h w show ?thesis
    by (auto simp: emit_simps)
qed

text \<open>
  What the fetches of a list of URLs return, one after the other, from a given world: the
  specification's "URL whose fetch fails" is a URL whose entry is \<open>None\<close>.
\<close>

fun fetches :: "'w http \<Rightarrow> pystr list \<Rightarrow> 'w \<Rightarrow> pystr option list" where
  "fetches requests_get [] w = []"
| "fetches requests_get (url # urls) w =
     fetch_result (fst (requests_get w url HEADERS 20)) #
     fetches requests_get urls (snd (requests_get w url HEADERS 20))"

lemma length_fetches: "length (fetches requests_get urls w) = length urls"
  by (induction urls arbitrary: w) auto

text \<open>A loop that returns has appended one record for each URL, in order.\<close>

lemma scrape_loop_returns:
  assumes "length idx = length urls"
    and "scrape_loop L requests_get delay n (zip idx urls) (records, s) = Inr (records', s')"
  shows "\<exists>more. records' = records @ more \<and>
           map tool_url more = urls \<and>
           (\<forall>j<length urls.
              fetches requests_get urls (world s) ! j = None \<or>
              fetches requests_get urls (world s) ! j = Some []
                \<longrightarrow> more ! j = empty_record (urls ! j))"
  using assms
proof (induction urls arbitrary: idx records s)
  case Nil
  then show ?case by simp
next
  case (Cons url urls)
  then obtain i idx' where idx: "idx = i # idx'" "length idx' = length urls"
    by (cases idx) auto
  let ?r = "requests_get (world s) url HEADERS 20"
  from Cons.prems(2) idx obtain st where
    b: "loop_body L requests_get delay n i url (records, s) = Inr st"
    and l: "scrape_loop L requests_get delay n (zip idx' urls) st = Inr (records', s')"
    by (auto split: sum.splits)
  from loop_body_returns[OF b]
  obtain r s1 where st: "st = (records @ [r], s1)"
    and u: "tool_url r = url" and w: "world s1 = snd ?r"
    and e: "fetch_result (fst ?r) = None \<or> fetch_result (fst ?r) = Some [] \<longrightarrow> r = empty_record url"
    by blast
  from Cons.IH[OF idx(2) l[unfolded st]]
  obtain more where a: "records' = (records @ [r]) @ more"
    and m: "map tool_url more = urls"
    and p: "\<forall>j<length urls.
              fetches requests_get urls (world s1) ! j = None \<or>
              fetches requests_get urls (world s1) ! j = Some []
                \<longrightarrow> more ! j = empty_record (urls ! j)"
    by blast
  have app: "records' = records @ (r # more)"
    using a by simp
  have tu: "map tool_url (r # more) = url # urls"
    using u m by simp
  have ph: "\<forall>j<length (url # urls).
              fetches requests_get (url # urls) (world s) ! j = None \<or>
              fetches requests_get (url # urls) (world s) ! j = Some []
                \<longrightarrow> (r # more) ! j = empty_record ((url # urls) ! j)"
  proof (intro allI impI)
    fix j
    assume j: "j < length (url # urls)"
      and f: "fetches requests_get (url # urls) (world s) ! j = None \<or>
              fetches requests_get (url # urls) (world s) ! j = Some []"
    show "(r # more) ! j = empty_record ((url # urls) ! j)"
    proof (cases j)
      case 0
      with f e show ?thesis by simp
    next
      case (Suc k)
      with j f p w show ?thesis by auto
    qed
  qed
  show ?case
    by (rule exI[of _ "r # more"], rule conjI[OF app conjI[OF tu ph]])
qed

lemma length_indices: "length [1..<Suc (length xs)] = length xs"
  by (simp only: length_upt diff_Suc_1)

lemma scrape_all_tools_returns:
  assumes "get_readme_markdown requests_get s = (Inr md, s0)"
    and "scrape_all_tools L requests_get limit delay s = Inr (records, s')"
  shows "map tool_url records = apply_limit limit (extract_tool_links md) \<and>
         (\<forall>j<length (apply_limit limit (extract_tool_links md)).
            fetches requests_get (apply_limit limit (extract_tool_links md)) (world s0) ! j = None \<or>
            fetches requests_get (apply_limit limit (extract_tool_links md)) (world s0) ! j = Some []
              \<longrightarrow> records ! j = empty_record (apply_limit limit (extract_tool_links md) ! j))"
proof -
  let ?urls = "apply_limit limit (extract_tool_links md)"
  let ?s = "emit (Print_found (length (extract_tool_links md))) s0"
  have run: "scrape_loop L requests_get delay (length ?urls) (zip [1..<Suc (length ?urls)] ?urls)
               ([], ?s) = Inr (records, s')"
    using assms by (simp add: scrape_all_tools_def Let_def enumerate1_def)
  from scrape_loop_returns[OF length_indices run]
  show ?thesis by (simp add: emit_simps)
qed

text \<open>
  A README without a body is the result of the run when its request raises or its status
  is an error: the exception of \<open>get_readme_markdown\<close> is not caught.
\<close>

lemma scrape_all_tools_fatal:
  "get_readme_markdown requests_get s = (Inl e, s0) \<Longrightarrow>
   scrape_all_tools L requests_get limit delay s = Inl e"
  by (simp add: scrape_all_tools_def)

text \<open>
  The loop returns when the heuristics return on every page and \<^verbatim>\<open>time.sleep\<close> returns
  on the delay: a fetch that fails never ends the run.
\<close>

lemma loop_body_no_raise:
  assumes "\<forall>t url. \<exists>r. heuristics L t url = Inr r" and "time_sleep L delay = Inr ()"
  shows "\<exists>st'. loop_body L requests_get delay n i url st = Inr st'"
proof -
  obtain records s where st: "st = (records, s)" by (cases st)
  obtain html s1 where f: "fetch_html requests_get url (emit (Print_processing i n url) s) = (html, s1)"
    by (cases "fetch_html requests_get url (emit (Print_processing i n url) s)")
  show ?thesis
  proof (cases "html = None \<or> html = Some []")
    case True
    from loop_body_placeholder[OF f True, of L delay records] st show ?thesis by simp
  next
    case False
    then obtain t where t: "html = Some t" "t \<noteq> []" by auto
    from assms(1) obtain r where "heuristics L t url = Inr r" by blast
    from loop_body_record[OF f[unfolded t(1)] t(2) this assms(2), of records] st
    show ?thesis by simp
  qed
qed

lemma scrape_loop_no_raise:
  assumes "\<forall>t url. \<exists>r. heuristics L t url = Inr r" and "time_sleep L delay = Inr ()"
  shows "\<exists>st'. scrape_loop L requests_get delay n xs st = Inr st'"
proof (induction xs arbitrary: st)
  case Nil
  then show ?case by simp
next
  case (Cons x xs)
  obtain i url where x: "x = (i, url)" by (cases x)
  from loop_body_no_raise[OF assms, where requests_get = requests_get and n = n and i = i
      and url = url and st = st]
  obtain st1 where "loop_body L requests_get delay n i url st = Inr st1" by blast
  with Cons.IH[of st1] x show ?case by simp
qed


section \<open>Examples of networks\<close>

text \<open>
  A network that serves a given README and fails on every other request, and one that
  answers every other request with a given page; and the state in which a run starts.
\<close>

definition readme_net :: "pystr \<Rightarrow> unit http" where
  "readme_net md w url headers timeout =
     (if url = GITHUB_URL then (Inr \<lparr>status_code = 200, resp_text = md\<rparr>, w)
      else (Inl RequestException, w))"

definition serving :: "pystr \<Rightarrow> pystr \<Rightarrow> unit http" where
  "serving md page w url headers timeout =
     (if url = GITHUB_URL then (Inr \<lparr>status_code = 200, resp_text = md\<rparr>, w)
      else (Inr \<lparr>status_code = 200, resp_text = page\<rparr>, w))"

definition start :: "(unit, real) io" where
  "start = \<lparr>world = (), trace = []\<rparr>"

definition example_url :: pystr where
  "example_url = lit ''https://example.com/x''"

definition failed_run :: "(unit, real) io" where
  "failed_run =
     \<lparr>world = (),
      trace = [Request GITHUB_URL, Print_found 1, Print_processing 1 1 example_url,
               Request example_url, Print_warn example_url RequestException]\<rparr>"

lemma example_url_not_readme: "example_url \<noteq> GITHUB_URL"
  by (simp add: example_url_def GITHUB_URL_def lit_def)

lemma readme_net_readme:
  "get_readme_markdown (readme_net md) start = (Inr md, \<lparr>world = (), trace = [Request GITHUB_URL]\<rparr>)"
  by (simp add: get_readme_markdown_def get_text_of_def readme_net_def start_def emit_def
      raise_for_status_def)

lemma readme_example_links:
  "scrape_all_tools L (readme_net example_markdown) limit delay start =
     (let tool_urls = apply_limit limit [example_url]
      in scrape_loop L (readme_net example_markdown) delay (length tool_urls)
           (enumerate1 tool_urls)
           ([], \<lparr>world = (), trace = [Request GITHUB_URL, Print_found 1]\<rparr>))"
  by (simp add: scrape_all_tools_def readme_net_readme extract_tool_links_example Let_def
      emit_def example_url_def)

lemma failed_fetch_example:
  "scrape_loop L (readme_net md) delay 1 (enumerate1 [example_url])
     ([], \<lparr>world = (), trace = [Request GITHUB_URL, Print_found 1]\<rparr>) =
   Inr ([empty_record example_url], failed_run)"
  by (simp add: enumerate1_def loop_body_def fetch_html_def get_text_of_def readme_net_def
      emit_def example_url_not_readme failed_run_def Let_def)

text \<open>
  C1. The claim is that the sleep follows every URL, also one whose fetch failed. In the
  run below the README has one link and its fetch fails: the record with empty fields is
  appended and the run ends without any sleep.
\<close>

theorem failed_fetch_no_sleep:
  "scrape_all_tools (example_lib bare_doc) (readme_net example_markdown) None (1::real) start =
     Inr ([empty_record example_url], failed_run) \<and>
   sleeps (trace failed_run) = []"
proof -
  have "apply_limit None [example_url] = [example_url]"
    by (simp add: apply_limit_def)
  then have "scrape_all_tools (example_lib bare_doc) (readme_net example_markdown) None (1::real) start =
     Inr ([empty_record example_url], failed_run)"
    using failed_fetch_example[of "example_lib bare_doc" example_markdown 1]
    by (simp add: readme_example_links)
  moreover have "sleeps (trace failed_run) = []"
    by (simp add: failed_run_def)
  ultimately show ?thesis by simp
qed

text \<open>
  C1, amended. A pass through the loop body whose fetch failed or returned the empty
  string appends the record with empty fields and ends there, without a sleep. A pass
  whose fetch returned a text that is not empty, and in which the four heuristics and
  \<^verbatim>\<open>time.sleep\<close> return (an exception of theirs is not caught and ends the run),
  appends the record of the heuristics and ends with a sleep of \<open>delay\<close>; and every
  pass of that kind that returns has ended with that sleep.
\<close>

theorem loop_body_sleep:
  assumes f: "fetch_html requests_get url (emit (Print_processing i n url) s) = (html, s1)"
  shows "(html = None \<or> html = Some [] \<longrightarrow>
            loop_body L requests_get delay n i url (records, s) =
              Inr (records @ [empty_record url], s1) \<and>
            sleeps (trace s1) = sleeps (trace s)) \<and>
         (\<forall>t r. html = Some t \<and> t \<noteq> [] \<and> heuristics L t url = Inr r \<and>
                 time_sleep L delay = Inr () \<longrightarrow>
            loop_body L requests_get delay n i url (records, s) =
              Inr (records @ [r], emit (Sleep delay) s1) \<and>
            sleeps (trace (emit (Sleep delay) s1)) = sleeps (trace s) @ [delay]) \<and>
         (\<forall>st. html \<noteq> None \<and> html \<noteq> Some [] \<and>
                loop_body L requests_get delay n i url (records, s) = Inr st \<longrightarrow>
            (\<exists>r. fst st = records @ [r]) \<and> snd st = emit (Sleep delay) s1 \<and>
            time_sleep L delay = Inr ())"
proof -
  have s1: "sleeps (trace s1) = sleeps (trace s)"
    using fetch_html_sleeps[of requests_get url "emit (Print_processing i n url) s"] f
    by (simp add: emit_simps sleeps_append)
  have a: "html = None \<or> html = Some [] \<longrightarrow>
            loop_body L requests_get delay n i url (records, s) =
              Inr (records @ [empty_record url], s1) \<and>
            sleeps (trace s1) = sleeps (trace s)"
    using loop_body_placeholder[OF f] s1 by blast
  have b: "\<forall>t r. html = Some t \<and> t \<noteq> [] \<and> heuristics L t url = Inr r \<and>
                 time_sleep L delay = Inr () \<longrightarrow>
            loop_body L requests_get delay n i url (records, s) =
              Inr (records @ [r], emit (Sleep delay) s1) \<and>
            sleeps (trace (emit (Sleep delay) s1)) = sleeps (trace s) @ [delay]"
  proof (intro allI impI)
    fix t r
    assume h: "html = Some t \<and> t \<noteq> [] \<and> heuristics L t url = Inr r \<and>
                 time_sleep L delay = Inr ()"
    then have "fetch_html requests_get url (emit (Print_processing i n url) s) = (Some t, s1)"
      using f by simp
    from loop_body_record[OF this, of L r delay records] h
    have "loop_body L requests_get delay n i url (records, s) =
              Inr (records @ [r], emit (Sleep delay) s1)"
      by simp
    moreover have "sleeps (trace (emit (Sleep delay) s1)) = sleeps (trace s) @ [delay]"
      using s1 by (simp add: emit_simps sleeps_append)
    ultimately show "loop_body L requests_get delay n i url (records, s) =
              Inr (records @ [r], emit (Sleep delay) s1) \<and>
            sleeps (trace (emit (Sleep delay) s1)) = sleeps (trace s) @ [delay]"
      by (rule conjI)
  qed
  have c: "\<forall>st. html \<noteq> None \<and> html \<noteq> Some [] \<and>
                loop_body L requests_get delay n i url (records, s) = Inr st \<longrightarrow>
            (\<exists>r. fst st = records @ [r]) \<and> snd st = emit (Sleep delay) s1 \<and>
            time_sleep L delay = Inr ()"
  proof (intro allI impI)
    fix st
    assume h: "html \<noteq> None \<and> html \<noteq> Some [] \<and>
                loop_body L requests_get delay n i url (records, s) = Inr st"
    then have "loop_body L requests_get delay n i url (records, s) = Inr st" by simp
    from loop_body_Inr[OF f this] h
    show "(\<exists>r. fst st = records @ [r]) \<and> snd st = emit (Sleep delay) s1 \<and>
            time_sleep L delay = Inr ()"
      by auto
  qed
  from a b c show ?thesis by (intro conjI)
qed

lemma served_fetch:
  "fetch_html (serving md page) example_url (emit (Print_processing 1 1 example_url) start) =
     (Some page,
      \<lparr>world = (), trace = [Print_processing 1 1 example_url, Request example_url]\<rparr>)"
  by (simp add: fetch_html_def get_text_of_def serving_def emit_def start_def
      example_url_not_readme raise_for_status_def)


definition acme_record :: tool_record where
  "acme_record =
     \<lparr>product_name = lit ''Acme'', company = lit ''Acme Corp'', email = [], linkedin_url = [],
      twitter_url = [], careers_page = [], tool_url = example_url\<rparr>"

lemma findall_email_acme: "findall_email acme_page = []"
  by (simp add: acme_page_def acme_title_def lit_def match_email_def match_domain_def
      local_char_def domain_char_def alnum_def alpha_def Let_def)

lemma heuristics_acme: "heuristics (example_lib acme_doc) acme_page example_url = Inr acme_record"
proof -
  have e: "extract_emails (example_lib acme_doc) acme_page = Inr []"
    by (simp add: extract_emails_def example_lib_def acme_doc_def findall_email_acme)
  have so: "extract_social_links (example_lib acme_doc) acme_page = Inr ([], [])"
    by (simp add: extract_social_links_def example_lib_def acme_doc_def)
  have ca: "find_careers_page (example_lib acme_doc) acme_page example_url = Inr []"
    by (simp add: find_careers_page_def example_lib_def acme_doc_def)
  show ?thesis
    by (simp add: heuristics_def guess_acme_example e so ca acme_record_def)
qed

theorem loop_body_sleep_witness:
  "loop_body (example_lib acme_doc) (serving example_markdown acme_page) 1 1 1 example_url
     ([], start) =
     Inr ([acme_record],
       \<lparr>world = (),
        trace = [Print_processing 1 1 example_url, Request example_url, Sleep 1]\<rparr>) \<and>
   sleeps [Print_processing 1 1 example_url, Request example_url, Sleep (1::real)] = [1]"
proof -
  have ne: "acme_page \<noteq> []"
    by (simp add: acme_page_def lit_def)
  have sl: "time_sleep (example_lib acme_doc) 1 = Inr ()"
    by (simp add: example_lib_def)
  from loop_body_sleep[OF served_fetch[of example_markdown acme_page],
      where L = "example_lib acme_doc" and delay = 1 and records = "[]"] ne heuristics_acme sl
  have "loop_body (example_lib acme_doc) (serving example_markdown acme_page) 1 1 1 example_url
     ([], start) =
     Inr ([] @ [acme_record],
       emit (Sleep 1) \<lparr>world = (), trace = [Print_processing 1 1 example_url, Request example_url]\<rparr>)"
    by blast
  then show ?thesis by (simp add: emit_def)
qed

text \<open>
  C4. The claim is that every limit that is not \<^verbatim>\<open>None\<close> caps the run. With the limit
  \<open>0\<close> and a README of one link, the run processes that link and returns one record:
  \<^verbatim>\<open>if limit\<close> is false for \<open>0\<close>.
\<close>

theorem limit_zero_no_cap:
  "scrape_all_tools (example_lib bare_doc) (readme_net example_markdown) (Some 0) (1::real) start =
     Inr ([empty_record example_url], failed_run) \<and>
   map tool_url [empty_record example_url] \<noteq> take (nat 0) (extract_tool_links example_markdown)"
proof -
  have "apply_limit (Some 0) [example_url] = [example_url]"
    by (simp add: apply_limit_def)
  then have "scrape_all_tools (example_lib bare_doc) (readme_net example_markdown) (Some 0) (1::real) start =
     Inr ([empty_record example_url], failed_run)"
    using failed_fetch_example[of "example_lib bare_doc" example_markdown 1]
    by (simp add: readme_example_links)
  then show ?thesis by simp
qed

text \<open>
  C4, amended. When the README is fetched and the run returns, it returns one record for
  each URL of the capped list, in order: with a positive limit the first \<open>limit\<close>
  entries of the sorted link list, so at most \<open>limit\<close> records; with the limit \<open>0\<close>
  every entry, as without a limit; with a negative limit the slice
  \<^verbatim>\<open>tool_urls[:limit]\<close>, which leaves out the last \<open>-limit\<close> entries.
\<close>

theorem scrape_all_tools_limit:
  assumes "get_readme_markdown requests_get s = (Inr md, s0)"
    and "scrape_all_tools L requests_get (Some k) delay s = Inr (records, s')"
  shows "(0 < k \<longrightarrow> map tool_url records = take (nat k) (extract_tool_links md) \<and>
                    length records \<le> nat k) \<and>
         (k = 0 \<longrightarrow> map tool_url records = extract_tool_links md) \<and>
         (k < 0 \<longrightarrow> map tool_url records =
                    take (length (extract_tool_links md) - nat (- k)) (extract_tool_links md))"
proof -
  from scrape_all_tools_returns[OF assms]
  have u: "map tool_url records = apply_limit (Some k) (extract_tool_links md)"
    by blast
  have pos: "0 < k \<longrightarrow> map tool_url records = take (nat k) (extract_tool_links md)"
    using u by (simp add: apply_limit_def slice_to_def)
  have "0 < k \<longrightarrow> length (map tool_url records) \<le> nat k"
    using pos by simp
  then have len: "0 < k \<longrightarrow> length records \<le> nat k" by simp
  have zero: "k = 0 \<longrightarrow> map tool_url records = extract_tool_links md"
    using u by (simp add: apply_limit_def)
  have "k < 0 \<longrightarrow> nat (int (length (extract_tool_links md)) + k) =
                  length (extract_tool_links md) - nat (- k)"
    by auto
  then have neg: "k < 0 \<longrightarrow> map tool_url records =
                    take (length (extract_tool_links md) - nat (- k)) (extract_tool_links md)"
    using u by (simp add: apply_limit_def slice_to_def)
  from pos len zero neg show ?thesis by blast
qed

definition two_links :: pystr where
  "two_links = lit ''[A](https://a.example/) and [B](https://b.example/)''"

lemma extract_tool_links_two:
  "extract_tool_links two_links = [lit ''https://a.example/'', lit ''https://b.example/'']"
  by (simp add: extract_tool_links_def two_links_def repo_marker_def match_url_def
      match_url_body_def url_char_def isspace_def lit_def)


lemma failed_pass:
  assumes "url \<noteq> GITHUB_URL"
  shows "loop_body L (readme_net md) delay n i url (records, s) =
     Inr (records @ [empty_record url],
          emit (Print_warn url RequestException)
            (emit (Request url) (emit (Print_processing i n url) s)))"
  using assms
  by (simp add: loop_body_def fetch_html_def get_text_of_def readme_net_def emit_def Let_def)

lemma two_links_run:
  "\<exists>s'. scrape_all_tools (example_lib bare_doc) (readme_net two_links) (Some 1) (1::real) start =
      Inr ([empty_record (lit ''https://a.example/'')], s')"
proof -
  have n: "lit ''https://a.example/'' \<noteq> GITHUB_URL"
    by (simp add: GITHUB_URL_def lit_def)
  have l: "apply_limit (Some 1) (extract_tool_links two_links) = [lit ''https://a.example/'']"
    by (simp add: extract_tool_links_two apply_limit_def slice_to_def)
  show ?thesis
    by (simp add: scrape_all_tools_def readme_net_readme l Let_def enumerate1_def
        failed_pass[OF n])
qed

theorem scrape_all_tools_limit_witness:
  "\<exists>s'. scrape_all_tools (example_lib bare_doc) (readme_net two_links) (Some 1) (1::real) start =
      Inr ([empty_record (lit ''https://a.example/'')], s') \<and>
    map tool_url [empty_record (lit ''https://a.example/'')] =
      take (nat 1) [lit ''https://a.example/'', lit ''https://b.example/''] \<and>
    length [empty_record (lit ''https://a.example/'')] \<le> nat 1"
proof -
  from two_links_run obtain s' where
    r: "scrape_all_tools (example_lib bare_doc) (readme_net two_links) (Some 1) (1::real) start =
      Inr ([empty_record (lit ''https://a.example/'')], s')"
    by blast
  from scrape_all_tools_limit[OF readme_net_readme[of two_links] r]
  have "map tool_url [empty_record (lit ''https://a.example/'')] =
      take (nat 1) [lit ''https://a.example/'', lit ''https://b.example/''] \<and>
    length [empty_record (lit ''https://a.example/'')] \<le> nat 1"
    by (simp add: extract_tool_links_two)
  with r show ?thesis by blast
qed




text \<open>
  C10. When the fetch of a URL succeeds with the empty string as text, the loop body
  appends the record with empty fields and goes on from the state the fetch left,
  whatever the parser and the other library functions are: no heuristic is consulted.
  A pass in which the fetch fails ends in the same way.
\<close>

theorem loop_body_empty_text:
  assumes "fetch_html requests_get url (emit (Print_processing i n url) s) = (Some [], s1)"
  shows "loop_body L requests_get delay n i url (records, s) =
           Inr (records @ [empty_record url], s1) \<and>
         (\<forall>failing s2.
            fetch_html failing url (emit (Print_processing i n url) s) = (None, s2) \<longrightarrow>
            loop_body L failing delay n i url (records, s) =
              Inr (records @ [empty_record url], s2))"
proof -
  have e: "loop_body L requests_get delay n i url (records, s) =
           Inr (records @ [empty_record url], s1)"
    by (rule loop_body_placeholder[OF assms]) simp
  have f: "\<forall>failing s2.
            fetch_html failing url (emit (Print_processing i n url) s) = (None, s2) \<longrightarrow>
            loop_body L failing delay n i url (records, s) =
              Inr (records @ [empty_record url], s2)"
    by (auto intro: loop_body_placeholder)
  from e f show ?thesis by (rule conjI)
qed

theorem loop_body_empty_text_witness:
  "loop_body (example_lib acme_doc) (serving example_markdown []) (1::real) 1 1 example_url
     ([], start) =
   Inr ([empty_record example_url],
     \<lparr>world = (), trace = [Print_processing 1 1 example_url, Request example_url]\<rparr>)"
  using loop_body_empty_text[OF served_fetch[of example_markdown "[]"],
      where L = "example_lib acme_doc" and delay = 1 and records = "[]"]
  by simp

section \<open>Facts about the exporters\<close>





end
